theory Spec2Isabelle
  imports Main "HOL-Library.AList"
begin

section \<open>Data model\<close>

text \<open>
  The entities of \<^verbatim>\<open>src/App.jsx\<close>. Identifiers, roles and review states are JavaScript
  strings and are compared with \<^verbatim>\<open>===\<close>, so they are strings here. A field that can hold
  \<^verbatim>\<open>null\<close> or be absent is an option. JavaScript numbers are modelled by integers
  (scores, \<^verbatim>\<open>reviewersPerSubmission\<close>) and time stamps by naturals; fractions and
  \<^verbatim>\<open>NaN\<close> are left out.
\<close>

record user =
  user_id :: string
  user_name :: string
  user_role :: string
  user_email :: string

record criterion =
  crit_id :: string
  crit_title :: string
  maxScore :: int

record assignment =
  asg_id :: string
  asg_title :: string
  asg_desc :: string
  rubric :: "criterion list"
  asg_createdAt :: nat
  reviewersPerSubmission :: "int option"

record submission =
  sub_id :: string
  assignmentId :: string
  authorId :: string
  content :: string
  version :: nat
  sub_createdAt :: nat

text \<open>
  A \<^verbatim>\<open>scores\<close> object maps criterion ids to numbers. It is an association list in
  insertion order; \<^verbatim>\<open>{ ...s, [cid]: v }\<close> is \<^const>\<open>AList.update\<close> (an existing key keeps
  its place, a new key goes last) and \<^verbatim>\<open>s[cid]\<close> is \<^const>\<open>map_of\<close>.
\<close>

type_synonym scores = "(string \<times> int) list"

record review =
  rev_id :: string
  submissionId :: string
  reviewerId :: string
  scores :: "scores option"
  comment :: "string option"
  assignedAt :: "nat option"
  status :: string
  submittedAt :: "nat option"

text \<open>
  The state of the \<^verbatim>\<open>App\<close> component: \<^verbatim>\<open>users\<close> is read from the store on every
  render and never written after seeding; the other four are \<^verbatim>\<open>useState\<close> cells.
\<close>

record state =
  users :: "user list"
  user :: "user option"
  assignments :: "assignment list"
  submissions :: "submission list"
  reviews :: "review list"

section \<open>The store wrapper \<^verbatim>\<open>LS\<close>\<close>

datatype js_error = SyntaxError | SecurityError | TypeError

datatype jsval =
    JUndefined
  | JNull
  | JBool bool
  | JNum int
  | JStr string
  | JArr "jsval list"
  | JObj "(string \<times> jsval) list"

text \<open>\<^verbatim>\<open>v ?? fallback\<close>: the right operand is taken when the left is null or undefined.\<close>

definition nullish :: "jsval \<Rightarrow> jsval \<Rightarrow> jsval" where
  "nullish v fallback = (if v = JNull \<or> v = JUndefined then fallback else v)"

text \<open>
  The body of the \<^verbatim>\<open>try\<close> block of \<^verbatim>\<open>LS.get\<close>. The two platform functions are
  parameters: \<open>getItem\<close> is \<^verbatim>\<open>localStorage.getItem\<close> (\<open>None\<close> is its \<^verbatim>\<open>null\<close>, for an
  absent key) and \<open>parse\<close> is \<^verbatim>\<open>JSON.parse\<close>; either may throw. \<^verbatim>\<open>JSON.parse\<close> converts
  its argument to a string first, so \<^verbatim>\<open>null\<close> is parsed as the text \<^verbatim>\<open>null\<close>.
\<close>

definition LS_get_try ::
  "(string \<Rightarrow> js_error + string option) \<Rightarrow> (string \<Rightarrow> js_error + jsval) \<Rightarrow>
   string \<Rightarrow> jsval \<Rightarrow> js_error + jsval" where
  "LS_get_try getItem parse key fallback =
     (case getItem key of
        Inl e \<Rightarrow> Inl e
      | Inr item \<Rightarrow>
          (case parse (case item of None \<Rightarrow> ''null'' | Some t \<Rightarrow> t) of
             Inl e \<Rightarrow> Inl e
           | Inr v \<Rightarrow> Inr (nullish v fallback)))"

text \<open>\<^verbatim>\<open>LS.get\<close>: the \<^verbatim>\<open>catch\<close> clause returns the fallback for every exception.\<close>

definition LS_get ::
  "(string \<Rightarrow> js_error + string option) \<Rightarrow> (string \<Rightarrow> js_error + jsval) \<Rightarrow>
   string \<Rightarrow> jsval \<Rightarrow> js_error + jsval" where
  "LS_get getItem parse key fallback =
     (case LS_get_try getItem parse key fallback of
        Inl e \<Rightarrow> Inr fallback
      | Inr v \<Rightarrow> Inr v)"

text \<open>
  A store and a parser to evaluate \<^const>\<open>LS_get\<close> on: the parser knows four texts and
  throws on every other one.
\<close>

definition sample_getItem :: "string \<Rightarrow> js_error + string option" where
  "sample_getItem key =
     (if key = ''reviews'' then Inr (Some ''[]'')
      else if key = ''currentUser'' then Inr (Some ''null'')
      else if key = ''users'' then Inr (Some ''[{'')
      else if key = ''flag'' then Inr (Some ''false'')
      else Inr None)"

definition sample_parse :: "string \<Rightarrow> js_error + jsval" where
  "sample_parse t =
     (if t = ''null'' then Inr JNull
      else if t = ''[]'' then Inr (JArr [])
      else if t = ''false'' then Inr (JBool False)
      else if t = ''0'' then Inr (JNum 0)
      else Inl SyntaxError)"

section \<open>Identifiers\<close>

text \<open>
  \<^verbatim>\<open>uid(p)\<close> is \<^verbatim>\<open>p + '_' + Math.random().toString(36).slice(2,9)\<close>; the random suffix
  is the argument \<open>rnd\<close>. The source comments it as a small unique id generator; the
  suffix is not compared with the identifiers already in use.
\<close>

definition uid :: "string \<Rightarrow> string \<Rightarrow> string" where
  "uid p rnd = p @ ''_'' @ rnd"

section \<open>The forms\<close>

text \<open>
  \<^verbatim>\<open>!title.trim()\<close> and \<^verbatim>\<open>!content.trim()\<close> hold when the text has white space
  only. The white space is that of ASCII here, so a text of other Unicode spaces passes
  in the model where the form rejects it.
\<close>

definition is_space :: "char \<Rightarrow> bool" where
  "is_space c = (c \<in> {CHR '' '', CHR 0x09, CHR 0x0A, CHR 0x0B, CHR 0x0C, CHR 0x0D})"

definition blank :: "string \<Rightarrow> bool" where
  "blank t = list_all is_space t"

text \<open>\<^verbatim>\<open>CreateAssignment.submit\<close>: \<open>None\<close> when the title is rejected.\<close>

definition CreateAssignment_submit ::
  "string \<Rightarrow> string \<Rightarrow> criterion list \<Rightarrow> string \<Rightarrow> nat \<Rightarrow> assignment option" where
  "CreateAssignment_submit title desc rub rnd now =
     (if blank title then None
      else Some \<lparr>asg_id = uid ''a'' rnd, asg_title = title, asg_desc = desc, rubric = rub,
                 asg_createdAt = now, reviewersPerSubmission = Some 2\<rparr>)"

text \<open>\<^verbatim>\<open>SubmitForm.submit\<close>: \<open>None\<close> when the content is rejected.\<close>

definition SubmitForm_submit ::
  "assignment \<Rightarrow> user \<Rightarrow> string \<Rightarrow> string \<Rightarrow> nat \<Rightarrow> submission option" where
  "SubmitForm_submit a currentUser text rnd now =
     (if blank text then None
      else Some \<lparr>sub_id = uid ''sub'' rnd, assignmentId = asg_id a,
                 authorId = user_id currentUser, content = text, version = 1,
                 sub_createdAt = now\<rparr>)"

text \<open>
  \<^verbatim>\<open>ReviewForm\<close>. The initial scores are those of \<open>existingReview\<close> when there is one,
  and otherwise a 0 for every criterion of the rubric.
\<close>

definition init_scores :: "criterion list \<Rightarrow> scores" where
  "init_scores rub = foldl (\<lambda>s c. AList.update (crit_id c) 0 s) [] rub"

definition ReviewForm_init :: "assignment \<Rightarrow> review option \<Rightarrow> scores option" where
  "ReviewForm_init a existingReview =
     (case existingReview of
        Some r \<Rightarrow> scores r
      | None \<Rightarrow> Some (init_scores (rubric a)))"

text \<open>\<^verbatim>\<open>setScore\<close>: spreading \<^verbatim>\<open>null\<close> gives the empty object.\<close>

definition setScore :: "string \<Rightarrow> int \<Rightarrow> scores option \<Rightarrow> scores option" where
  "setScore cid val s =
     Some (AList.update cid val (case s of None \<Rightarrow> [] | Some al \<Rightarrow> al))"

text \<open>
  \<^verbatim>\<open>ReviewForm.submit\<close>: the loop over the rubric returns at the first criterion whose
  score is null or undefined (\<open>Inr None\<close>: the alert, nothing is submitted); reading a
  property of \<^verbatim>\<open>null\<close> scores throws; otherwise the scores and the comment go to
  \<^verbatim>\<open>onSubmitReview\<close>. Criterion ids are made by \<^verbatim>\<open>uid('c')\<close>, so none of them is
  the name of a property that every object inherits, and \<^verbatim>\<open>scores[c.id]\<close> is a
  look-up among the entries of the object.
\<close>

fun ReviewForm_validate :: "criterion list \<Rightarrow> scores option \<Rightarrow> js_error + bool" where
  "ReviewForm_validate [] s = Inr True"
| "ReviewForm_validate (c # cs) None = Inl TypeError"
| "ReviewForm_validate (c # cs) (Some al) =
     (if map_of al (crit_id c) = None then Inr False else ReviewForm_validate cs (Some al))"

definition ReviewForm_submit ::
  "assignment \<Rightarrow> scores option \<Rightarrow> string \<Rightarrow> js_error + (scores option \<times> string) option" where
  "ReviewForm_submit a s cm =
     (case ReviewForm_validate (rubric a) s of
        Inl e \<Rightarrow> Inl e
      | Inr ok \<Rightarrow> Inr (if ok then Some (s, cm) else None))"

section \<open>The handlers of \<^verbatim>\<open>App\<close>\<close>

definition createAssignment :: "state \<Rightarrow> assignment \<Rightarrow> state" where
  "createAssignment st a = st\<lparr>assignments := assignments st @ [a]\<rparr>"

text \<open>The eligible pool of \<^verbatim>\<open>createSubmission\<close>.\<close>

definition students :: "user list \<Rightarrow> submission \<Rightarrow> user list" where
  "students us s = filter (\<lambda>u. user_role u = ''student'' \<and> user_id u \<noteq> authorId s) us"

text \<open>
  \<^verbatim>\<open>(assignments.find(...)?.reviewersPerSubmission) || 2\<close>: the default 2 is taken when
  no assignment is found, when the field is unset, and when it is 0 (the falsy number).
\<close>

definition reviewersNeeded :: "assignment list \<Rightarrow> submission \<Rightarrow> int" where
  "reviewersNeeded as s =
     (case find (\<lambda>a. asg_id a = assignmentId s) as of
        None \<Rightarrow> 2
      | Some a \<Rightarrow>
          (case reviewersPerSubmission a of
             None \<Rightarrow> 2
           | Some n \<Rightarrow> if n = 0 then 2 else n))"

text \<open>
  The sampling loop. Every turn of the loop calls \<^verbatim>\<open>Math.random()\<close> once; the list
  \<open>draws\<close> holds the outcomes of these calls in order, each a natural number \<open>d\<close> that
  stands for the index \<open>d mod length studs\<close> (\<^verbatim>\<open>Math.floor(Math.random()*n)\<close> is an
  index below \<open>n\<close>, and every such index can come out). The result is \<open>None\<close> when the
  loop is still running after the last draw of the list.
\<close>

fun chooseReviewers :: "user list \<Rightarrow> int \<Rightarrow> string list \<Rightarrow> nat list \<Rightarrow> string list option" where
  "chooseReviewers studs needed chosen [] =
     (if int (length chosen) < min needed (int (length studs)) then None else Some chosen)"
| "chooseReviewers studs needed chosen (d # draws) =
     (if int (length chosen) < min needed (int (length studs)) then
        (let pick = studs ! (d mod length studs) in
         if user_id pick \<in> set chosen then chooseReviewers studs needed chosen draws
         else chooseReviewers studs needed (chosen @ [user_id pick]) draws)
      else Some chosen)"

text \<open>
  The placeholders: the \<open>k\<close>-th one takes its identifier from \<open>rnds k\<close> and its time
  stamp from \<open>nows k\<close>.
\<close>

definition placeholders ::
  "submission \<Rightarrow> string list \<Rightarrow> (nat \<Rightarrow> string) \<Rightarrow> (nat \<Rightarrow> nat) \<Rightarrow> review list" where
  "placeholders s chosen rnds nows =
     map (\<lambda>(k, rid). \<lparr>rev_id = uid ''ra'' (rnds k), submissionId = sub_id s, reviewerId = rid,
                       scores = None, comment = None, assignedAt = Some (nows k),
                       status = ''pending'', submittedAt = None\<rparr>)
         (enumerate 0 chosen)"

definition createSubmission ::
  "state \<Rightarrow> submission \<Rightarrow> nat list \<Rightarrow> (nat \<Rightarrow> string) \<Rightarrow> (nat \<Rightarrow> nat) \<Rightarrow> state option" where
  "createSubmission st s draws rnds nows =
     (case chooseReviewers (students (users st) s) (reviewersNeeded (assignments st) s) [] draws of
        None \<Rightarrow> None
      | Some chosen \<Rightarrow>
          Some (st\<lparr>submissions := submissions st @ [s],
                   reviews := reviews st @ placeholders s chosen rnds nows\<rparr>))"

text \<open>\<^verbatim>\<open>Array.prototype.findIndex\<close>: the first index whose element satisfies \<open>P\<close>, or -1.\<close>

fun findIndex :: "('a \<Rightarrow> bool) \<Rightarrow> 'a list \<Rightarrow> int" where
  "findIndex P [] = - 1"
| "findIndex P (x # xs) =
     (if P x then 0 else (let i = findIndex P xs in if i < 0 then - 1 else i + 1))"

definition is_pending_for :: "string \<Rightarrow> string \<Rightarrow> review \<Rightarrow> bool" where
  "is_pending_for sid rid r =
     (submissionId r = sid \<and> reviewerId r = rid \<and> status r = ''pending'')"

text \<open>
  The updater that \<^verbatim>\<open>submitReview\<close> passes to \<^verbatim>\<open>setReviews\<close>; \<open>rnd\<close> is the suffix of
  \<^verbatim>\<open>uid('r')\<close> and \<open>now\<close> is \<^verbatim>\<open>Date.now()\<close>. The inserted record has no
  \<^verbatim>\<open>assignedAt\<close>.
\<close>

definition submitReview ::
  "string \<Rightarrow> string \<Rightarrow> scores option \<Rightarrow> string option \<Rightarrow> string \<Rightarrow> nat \<Rightarrow>
   review list \<Rightarrow> review list" where
  "submitReview sid rid sc cm rnd now prev =
     (let copy = prev;
          idx = findIndex (is_pending_for sid rid) copy
      in if 0 \<le> idx then
           copy[nat idx := (copy ! nat idx)\<lparr>scores := sc, comment := cm, status := ''done'',
                                            submittedAt := Some now\<rparr>]
         else
           copy @ [\<lparr>rev_id = uid ''r'' rnd, submissionId = sid, reviewerId = rid, scores = sc,
                    comment = cm, assignedAt = None, status = ''done'',
                    submittedAt = Some now\<rparr>])"

definition myAssignedReviews :: "state \<Rightarrow> user \<Rightarrow> review list" where
  "myAssignedReviews st u = filter (\<lambda>r. reviewerId r = user_id u) (reviews st)"

section \<open>The application as a transition system\<close>

text \<open>
  What a user can do with the rendered page. An event that the page does not offer in the
  current state (no user logged in, the other role's view, an index beyond the rendered
  list, a form that rejects its input or throws) leaves the state as it is.
  \<^item> \<open>Login sel\<close>: the login form, shown when no user is logged in, with the user id
    \<open>sel\<close> selected; an id of no user logs nobody in.
  \<^item> \<open>CreateAssignmentEv title desc rub rnd now\<close>: the teacher's form.
  \<^item> \<open>SubmitEv k text rnd now draws rnds nows\<close>: the submit form of the \<open>k\<close>-th
    assignment card.
  \<^item> \<open>ReviewEv k sets cm rnd now\<close>: the review form of the \<open>k\<close>-th assigned review, after
    the score inputs were changed as listed in \<open>sets\<close>.
  \<^item> \<open>Reload\<close>: the store mirrors the state after every change, so reading it back
    changes nothing.
  The result \<open>None\<close> is a sampling loop that has not returned.
\<close>

datatype event =
    Login string
  | Logout
  | Reload
  | CreateAssignmentEv string string "criterion list" string nat
  | SubmitEv nat string string nat "nat list" "nat \<Rightarrow> string" "nat \<Rightarrow> nat"
  | ReviewEv nat "(string \<times> int) list" string string nat

fun step :: "state \<Rightarrow> event \<Rightarrow> state option" where
  "step st (Login sel) =
     (case user st of
        None \<Rightarrow> Some (st\<lparr>user := find (\<lambda>u. user_id u = sel) (users st)\<rparr>)
      | Some u \<Rightarrow> Some st)"
| "step st Logout = Some (st\<lparr>user := None\<rparr>)"
| "step st Reload = Some st"
| "step st (CreateAssignmentEv title desc rub rnd now) =
     (case user st of
        None \<Rightarrow> Some st
      | Some u \<Rightarrow>
          if user_role u = ''teacher'' then
            (case CreateAssignment_submit title desc rub rnd now of
               None \<Rightarrow> Some st
             | Some a \<Rightarrow> Some (createAssignment st a))
          else Some st)"
| "step st (SubmitEv k text rnd now draws rnds nows) =
     (case user st of
        None \<Rightarrow> Some st
      | Some u \<Rightarrow>
          if user_role u = ''teacher'' \<or> length (assignments st) \<le> k then Some st
          else
            (case SubmitForm_submit (assignments st ! k) u text rnd now of
               None \<Rightarrow> Some st
             | Some s \<Rightarrow> createSubmission st s draws rnds nows))"
| "step st (ReviewEv k sets cm rnd now) =
     (case user st of
        None \<Rightarrow> Some st
      | Some u \<Rightarrow>
          if user_role u = ''teacher'' \<or> length (myAssignedReviews st u) \<le> k then Some st
          else
            (let r = myAssignedReviews st u ! k in
             if status r \<noteq> ''pending'' then Some st
             else
               (case find (\<lambda>s. sub_id s = submissionId r) (submissions st) of
                  None \<Rightarrow> Some st
                | Some sub \<Rightarrow>
                    (case find (\<lambda>a. asg_id a = assignmentId sub) (assignments st) of
                       None \<Rightarrow> Some st
                     | Some a \<Rightarrow>
                         (case ReviewForm_submit a
                                 (foldl (\<lambda>s (cid, val). setScore cid val s)
                                        (ReviewForm_init a None) sets) cm of
                            Inr (Some (sc, cm')) \<Rightarrow>
                              Some (st\<lparr>reviews :=
                                         submitReview (submissionId r) (reviewerId r) sc
                                           (Some cm') rnd now (reviews st)\<rparr>)
                          | _ \<Rightarrow> Some st)))))"

fun run :: "state \<Rightarrow> event list \<Rightarrow> state option" where
  "run st [] = Some st"
| "run st (e # es) = (case step st e of None \<Rightarrow> None | Some st' \<Rightarrow> run st' es)"

text \<open>The state of a fresh profile, with the users \<open>us\<close> in the store.\<close>

definition init_state :: "user list \<Rightarrow> state" where
  "init_state us = \<lparr>users = us, user = None, assignments = [], submissions = [], reviews = []\<rparr>"

text \<open>The users that \<^verbatim>\<open>seed\<close> writes.\<close>

definition seed_users :: "user list" where
  "seed_users =
     [\<lparr>user_id = ''t1'', user_name = ''Teacher Alice'', user_role = ''teacher'',
       user_email = ''alice@school.com''\<rparr>,
      \<lparr>user_id = ''s1'', user_name = ''Student Rohini'', user_role = ''student'',
       user_email = ''rohini@example.com''\<rparr>,
      \<lparr>user_id = ''s2'', user_name = ''Student Ravi'', user_role = ''student'',
       user_email = ''ravi@example.com''\<rparr>,
      \<lparr>user_id = ''s3'', user_name = ''Student Yaswanth'', user_role = ''student'',
       user_email = ''yaswanth@example.com''\<rparr>]"

section \<open>Sampling outcomes, invariants and sample data\<close>

text \<open>The reviewer ids that a list of draws points at, in the order of the draws.\<close>

definition picks :: "user list \<Rightarrow> nat list \<Rightarrow> string list" where
  "picks studs draws = map (\<lambda>d. user_id (studs ! (d mod length studs))) draws"

text \<open>
  Two properties of a state. In the first, every review has a submission with its
  \<^verbatim>\<open>submissionId\<close> that somebody else wrote. In the second, every done review resolves,
  by the look-ups the page itself uses, to a submission and an assignment, and its scores
  have an entry for every criterion of that assignment's rubric.
\<close>

definition reviews_not_by_author :: "state \<Rightarrow> bool" where
  "reviews_not_by_author st =
     (\<forall>r\<in>set (reviews st). \<exists>s\<in>set (submissions st).
        sub_id s = submissionId r \<and> reviewerId r \<noteq> authorId s)"

definition done_reviews_scored :: "state \<Rightarrow> bool" where
  "done_reviews_scored st =
     (\<forall>r\<in>set (reviews st). status r = ''done'' \<longrightarrow>
        (\<exists>sub a sc. find (\<lambda>s. sub_id s = submissionId r) (submissions st) = Some sub \<and>
                    find (\<lambda>a. asg_id a = assignmentId sub) (assignments st) = Some a \<and>
                    scores r = Some sc \<and>
                    (\<forall>c\<in>set (rubric a). \<exists>v. map_of sc (crit_id c) = Some v)))"

text \<open>
  The submission that the page shows for a review:
  \<^verbatim>\<open>submissions.find(s => s.id === r.submissionId)\<close>.
\<close>

definition submissionOf :: "state \<Rightarrow> review \<Rightarrow> submission option" where
  "submissionOf st r = find (\<lambda>s. sub_id s = submissionId r) (submissions st)"

text \<open>
  Concrete data to evaluate the handlers on: an assignment as the teacher's form creates
  it, a submission by the seeded student \<^verbatim>\<open>s1\<close>, the random suffixes and time stamps
  of the placeholders, the state before that submission, the same state with no other
  student, with a negative and with an unset \<^verbatim>\<open>reviewersPerSubmission\<close>, a review list
  with two pending placeholders for the same reviewer, and a session in which the teacher
  creates the assignment, \<^verbatim>\<open>s1\<close> submits and \<^verbatim>\<open>s2\<close> reviews, with the state it ends in.
  In the last session \<^verbatim>\<open>s1\<close> and \<^verbatim>\<open>s2\<close> both submit and \<^verbatim>\<open>uid('sub')\<close> draws the
  same suffix twice.
\<close>

definition sample_assignment :: assignment where
  "sample_assignment =
     \<lparr>asg_id = ''a_7f3k2p1'', asg_title = ''Essay'', asg_desc = ''Two pages'',
      rubric = [\<lparr>crit_id = ''c_1'', crit_title = ''Quality'', maxScore = 5\<rparr>,
                \<lparr>crit_id = ''c_2'', crit_title = ''Completeness'', maxScore = 5\<rparr>],
      asg_createdAt = 10, reviewersPerSubmission = Some 2\<rparr>"

definition sample_submission :: submission where
  "sample_submission =
     \<lparr>sub_id = ''sub_1'', assignmentId = ''a_7f3k2p1'', authorId = ''s1'',
      content = ''my essay'', version = 1, sub_createdAt = 20\<rparr>"

definition sample_rnds :: "nat \<Rightarrow> string" where
  "sample_rnds k = (if k = 0 then ''k3v9x0a'' else ''p07bq2m'')"

definition sample_nows :: "nat \<Rightarrow> nat" where
  "sample_nows k = 100 + k"

definition sample_state :: state where
  "sample_state =
     \<lparr>users = seed_users, user = Some (seed_users ! 1), assignments = [sample_assignment],
      submissions = [], reviews = []\<rparr>"

definition lone_state :: state where
  "lone_state = sample_state\<lparr>users := take 2 seed_users\<rparr>"

definition negative_state :: state where
  "negative_state =
     sample_state\<lparr>assignments := [sample_assignment\<lparr>reviewersPerSubmission := Some (- 1)\<rparr>]\<rparr>"

definition unset_state :: state where
  "unset_state =
     sample_state\<lparr>assignments := [sample_assignment\<lparr>reviewersPerSubmission := None\<rparr>]\<rparr>"

definition sample_reviews :: "review list" where
  "sample_reviews =
     [\<lparr>rev_id = ''ra_k3v9x0a'', submissionId = ''sub_1'', reviewerId = ''s2'', scores = None,
       comment = None, assignedAt = Some 100, status = ''pending'', submittedAt = None\<rparr>,
      \<lparr>rev_id = ''ra_p07bq2m'', submissionId = ''sub_1'', reviewerId = ''s3'', scores = None,
       comment = None, assignedAt = Some 100, status = ''pending'', submittedAt = None\<rparr>,
      \<lparr>rev_id = ''ra_9dd1c4e'', submissionId = ''sub_1'', reviewerId = ''s2'', scores = None,
       comment = None, assignedAt = Some 101, status = ''pending'', submittedAt = None\<rparr>]"

definition sample_events :: "event list" where
  "sample_events =
     [Login ''t1'',
      CreateAssignmentEv ''Essay'' ''Two pages'' (rubric sample_assignment) ''7f3k2p1'' 10,
      Logout,
      Login ''s1'',
      SubmitEv 0 ''my essay'' ''1'' 20 [0, 0, 1] sample_rnds sample_nows,
      Logout,
      Login ''s2'',
      ReviewEv 0 [(''c_1'', 4)] ''fine'' ''q1w2e3r'' 200]"

definition sample_final :: state where
  "sample_final =
     \<lparr>users = seed_users, user = Some (seed_users ! 2), assignments = [sample_assignment],
      submissions = [sample_submission],
      reviews = [\<lparr>rev_id = ''ra_k3v9x0a'', submissionId = ''sub_1'', reviewerId = ''s2'',
                  scores = Some [(''c_1'', 4), (''c_2'', 0)], comment = Some ''fine'',
                  assignedAt = Some 100, status = ''done'', submittedAt = Some 200\<rparr>,
                 \<lparr>rev_id = ''ra_p07bq2m'', submissionId = ''sub_1'', reviewerId = ''s3'',
                  scores = None, comment = None, assignedAt = Some 101,
                  status = ''pending'', submittedAt = None\<rparr>]\<rparr>"

definition other_rnds :: "nat \<Rightarrow> string" where
  "other_rnds k = (if k = 0 then ''m4t8z1c'' else ''w6n2h5j'')"

definition other_nows :: "nat \<Rightarrow> nat" where
  "other_nows k = 130 + k"

definition collision_events :: "event list" where
  "collision_events =
     [Login ''t1'',
      CreateAssignmentEv ''Essay'' ''Two pages'' (rubric sample_assignment) ''7f3k2p1'' 10,
      Logout,
      Login ''s1'',
      SubmitEv 0 ''my essay'' ''1'' 20 [0, 0, 1] sample_rnds sample_nows,
      Logout,
      Login ''s2'',
      SubmitEv 0 ''other essay'' ''1'' 30 [0, 1] other_rnds other_nows]"

definition collision_final :: state where
  "collision_final =
     \<lparr>users = seed_users, user = Some (seed_users ! 2), assignments = [sample_assignment],
      submissions = [sample_submission,
                     \<lparr>sub_id = ''sub_1'', assignmentId = ''a_7f3k2p1'', authorId = ''s2'',
                      content = ''other essay'', version = 1, sub_createdAt = 30\<rparr>],
      reviews = [\<lparr>rev_id = ''ra_k3v9x0a'', submissionId = ''sub_1'', reviewerId = ''s2'',
                  scores = None, comment = None, assignedAt = Some 100,
                  status = ''pending'', submittedAt = None\<rparr>,
                 \<lparr>rev_id = ''ra_p07bq2m'', submissionId = ''sub_1'', reviewerId = ''s3'',
                  scores = None, comment = None, assignedAt = Some 101,
                  status = ''pending'', submittedAt = None\<rparr>,
                 \<lparr>rev_id = ''ra_m4t8z1c'', submissionId = ''sub_1'', reviewerId = ''s1'',
                  scores = None, comment = None, assignedAt = Some 130,
                  status = ''pending'', submittedAt = None\<rparr>,
                 \<lparr>rev_id = ''ra_w6n2h5j'', submissionId = ''sub_1'', reviewerId = ''s3'',
                  scores = None, comment = None, assignedAt = Some 131,
                  status = ''pending'', submittedAt = None\<rparr>]\<rparr>"

section \<open>Auxiliary facts\<close>

subsection \<open>\<^const>\<open>findIndex\<close> and \<^const>\<open>submitReview\<close>\<close>

lemma findIndex_none: "(\<forall>x\<in>set xs. \<not> P x) \<Longrightarrow> findIndex P xs = - 1"
  by (induction xs) auto

lemma findIndex_append:
  "(\<forall>a\<in>set as. \<not> P a) \<Longrightarrow> P x \<Longrightarrow> findIndex P (as @ x # bs) = int (length as)"
  by (induction as) auto

lemma findIndex_neg_iff: "findIndex P xs < 0 \<longleftrightarrow> (\<forall>x\<in>set xs. \<not> P x)"
  by (induction xs) (auto simp: Let_def)

lemma first_match_split:
  "\<exists>x\<in>set xs. P x \<Longrightarrow> \<exists>as x bs. xs = as @ x # bs \<and> (\<forall>a\<in>set as. \<not> P a) \<and> P x"
  by (metis split_list_first_prop)

lemma submitReview_found:
  assumes "\<forall>a\<in>set as. \<not> is_pending_for sid rid a" and "is_pending_for sid rid x"
  shows "submitReview sid rid sc cm rnd now (as @ x # bs) =
         as @ x\<lparr>scores := sc, comment := cm, status := ''done'', submittedAt := Some now\<rparr> # bs"
  using assms by (simp add: submitReview_def findIndex_append)

lemma submitReview_not_found:
  assumes "\<forall>r\<in>set prev. \<not> is_pending_for sid rid r"
  shows "submitReview sid rid sc cm rnd now prev =
         prev @ [\<lparr>rev_id = uid ''r'' rnd, submissionId = sid, reviewerId = rid, scores = sc,
                  comment = cm, assignedAt = None, status = ''done'', submittedAt = Some now\<rparr>]"
  using assms by (simp add: submitReview_def findIndex_none)

text \<open>
  Every record of the result is a record of the old list or a done record for the pair
  with the supplied scores.
\<close>

lemma submitReview_cases:
  assumes "r' \<in> set (submitReview sid rid sc cm rnd now prev)"
  shows "r' \<in> set prev \<or>
         (submissionId r' = sid \<and> reviewerId r' = rid \<and> scores r' = sc \<and> status r' = ''done'')"
proof (cases "\<exists>r\<in>set prev. is_pending_for sid rid r")
  case True
  then obtain as x bs where
    split: "prev = as @ x # bs" and before: "\<forall>a\<in>set as. \<not> is_pending_for sid rid a"
    and hit: "is_pending_for sid rid x"
    using first_match_split [of prev "is_pending_for sid rid"] by blast
  from assms have "r' \<in> set (as @ x\<lparr>scores := sc, comment := cm, status := ''done'',
      submittedAt := Some now\<rparr> # bs)"
    using before hit by (simp only: split submitReview_found)
  with hit show ?thesis by (auto simp: split is_pending_for_def)
next
  case False
  then have "\<forall>r\<in>set prev. \<not> is_pending_for sid rid r" by blast
  from assms submitReview_not_found [OF this, of sc cm rnd now] show ?thesis by auto
qed

subsection \<open>The sampling loop\<close>

text \<open>
  One turn of the loop, by cases: the loop is over; the drawn student is already chosen;
  the drawn student is new.
\<close>

lemma chooseReviewers_done:
  "\<not> int (length chosen) < min needed (int (length studs)) \<Longrightarrow>
   chooseReviewers studs needed chosen draws = Some chosen"
  by (cases draws) (simp_all only: chooseReviewers.simps if_False)

lemma chooseReviewers_seen:
  "int (length chosen) < min needed (int (length studs)) \<Longrightarrow>
   user_id (studs ! (d mod length studs)) \<in> set chosen \<Longrightarrow>
   chooseReviewers studs needed chosen (d # draws) = chooseReviewers studs needed chosen draws"
  by (simp only: chooseReviewers.simps if_True Let_def)

lemma chooseReviewers_new:
  "int (length chosen) < min needed (int (length studs)) \<Longrightarrow>
   user_id (studs ! (d mod length studs)) \<notin> set chosen \<Longrightarrow>
   chooseReviewers studs needed chosen (d # draws) =
   chooseReviewers studs needed (chosen @ [user_id (studs ! (d mod length studs))]) draws"
  by (simp only: chooseReviewers.simps if_True if_False Let_def)

text \<open>
  The loop returns on a list of draws exactly when the draws, together with the ids
  chosen so far, reach the target number of different ids.
\<close>

lemma chooseReviewers_completes_iff:
  "distinct chosen \<Longrightarrow>
   (chooseReviewers studs needed chosen draws \<noteq> None) =
   (min needed (int (length studs)) \<le> int (card (set chosen \<union> set (picks studs draws))))"
proof (induction draws arbitrary: chosen)
  case Nil
  then show ?case by (auto simp: picks_def distinct_card)
next
  case (Cons d draws)
  let ?T = "min needed (int (length studs))"
  let ?p = "user_id (studs ! (d mod length studs))"
  show ?case
  proof (cases "int (length chosen) < ?T")
    case False
    have "card (set chosen) \<le> card (set chosen \<union> set (picks studs (d # draws)))"
      by (rule card_mono) auto
    then have "int (length chosen) \<le> int (card (set chosen \<union> set (picks studs (d # draws))))"
      using Cons.prems by (simp add: distinct_card)
    with False have rhs: "?T \<le> int (card (set chosen \<union> set (picks studs (d # draws))))"
      by linarith
    have "chooseReviewers studs needed chosen (d # draws) = Some chosen"
      using False by (rule chooseReviewers_done)
    with rhs show ?thesis by simp
  next
    case True
    show ?thesis
    proof (cases "?p \<in> set chosen")
      case True
      then have "set chosen \<union> set (picks studs (d # draws)) = set chosen \<union> set (picks studs draws)"
        by (auto simp: picks_def)
      with chooseReviewers_seen [OF \<open>int (length chosen) < ?T\<close> True, of draws]
        Cons.IH [OF Cons.prems] show ?thesis
        by simp
    next
      case False
      then have d: "distinct (chosen @ [?p])" using Cons.prems by simp
      have "set (chosen @ [?p]) \<union> set (picks studs draws) =
            set chosen \<union> set (picks studs (d # draws))"
        by (auto simp: picks_def)
      with chooseReviewers_new [OF \<open>int (length chosen) < ?T\<close> False, of draws]
        Cons.IH [OF d] show ?thesis
        by simp
    qed
  qed
qed

text \<open>
  What the loop returns: the ids chosen so far followed by new ones, all different, all
  from the pool, up to the target.
\<close>

lemma chooseReviewers_result:
  "chooseReviewers studs needed chosen draws = Some res \<Longrightarrow> distinct chosen \<Longrightarrow>
   distinct res \<and> (\<exists>more. res = chosen @ more \<and> set more \<subseteq> user_id ` set studs) \<and>
   length res = max (length chosen) (nat (min needed (int (length studs))))"
proof (induction draws arbitrary: chosen)
  case Nil
  then show ?case by (auto split: if_splits)
next
  case (Cons d draws)
  let ?T = "min needed (int (length studs))"
  let ?p = "user_id (studs ! (d mod length studs))"
  show ?case
  proof (cases "int (length chosen) < ?T")
    case False
    from chooseReviewers_done [OF False, of "d # draws"] Cons.prems(1)
    have "res = chosen" by simp
    with False Cons.prems(2) show ?thesis by auto
  next
    case True
    then have n: "0 < length studs" by auto
    then have pin: "?p \<in> user_id ` set studs" by simp
    show ?thesis
    proof (cases "?p \<in> set chosen")
      case True
      with chooseReviewers_seen [OF \<open>int (length chosen) < ?T\<close> True, of draws] Cons.prems(1)
      have "chooseReviewers studs needed chosen draws = Some res" by simp
      from Cons.IH [OF this Cons.prems(2)] show ?thesis .
    next
      case False
      with chooseReviewers_new [OF \<open>int (length chosen) < ?T\<close> False, of draws] Cons.prems(1)
      have r: "chooseReviewers studs needed (chosen @ [?p]) draws = Some res"
        by simp
      have d: "distinct (chosen @ [?p])" using False Cons.prems(2) by simp
      from Cons.IH [OF r d] obtain more where
        a: "distinct res" and b: "res = (chosen @ [?p]) @ more"
        and c: "set more \<subseteq> user_id ` set studs"
        and l: "length res = max (length (chosen @ [?p])) (nat ?T)" by blast
      have "res = chosen @ (?p # more) \<and> set (?p # more) \<subseteq> user_id ` set studs"
        using b c pin by simp
      moreover have "length res = max (length chosen) (nat ?T)"
        using l \<open>int (length chosen) < ?T\<close> by auto
      ultimately show ?thesis using a by blast
    qed
  qed
qed

text \<open>
  When the students of the pool have different ids, one draw of every index after any
  list of draws ends the loop.
\<close>

lemma picks_all: "distinct (map user_id studs) \<Longrightarrow> picks studs [0..<length studs] = map user_id studs"
  by (auto simp: picks_def intro!: nth_equalityI)

lemma chooseReviewers_can_complete:
  assumes "distinct (map user_id studs)"
  shows "chooseReviewers studs needed [] (draws @ [0..<length studs]) \<noteq> None"
proof -
  have "picks studs (draws @ [0..<length studs]) = picks studs draws @ map user_id studs"
    using picks_all [OF assms] by (simp add: picks_def)
  then have "card (set (map user_id studs)) \<le> card (set (picks studs (draws @ [0..<length studs])))"
    by (intro card_mono) auto
  then have "length studs \<le> card (set (picks studs (draws @ [0..<length studs])))"
    using assms by (simp add: distinct_card del: set_map)
  then have "min needed (int (length studs)) \<le>
      int (card (set [] \<union> set (picks studs (draws @ [0..<length studs]))))" by simp
  then show ?thesis
    using chooseReviewers_completes_iff [of "[]" studs needed "draws @ [0..<length studs]"]
    by simp
qed

subsection \<open>\<^const>\<open>createSubmission\<close>\<close>

lemma students_set:
  "set (students us s) = {u \<in> set us. user_role u = ''student'' \<and> user_id u \<noteq> authorId s}"
  by (auto simp: students_def)

lemma students_card:
  assumes "distinct (map user_id us)"
  shows "card {u \<in> set us. user_role u = ''student'' \<and> user_id u \<noteq> authorId s} =
         length (students us s)"
proof -
  from assms have "distinct us" by (simp add: distinct_map)
  then have "distinct (students us s)" by (simp add: students_def)
  then have "card (set (students us s)) = length (students us s)" by (rule distinct_card)
  then show ?thesis by (simp only: students_set)
qed

lemma students_distinct_ids:
  "distinct (map user_id us) \<Longrightarrow> distinct (map user_id (students us s))"
  by (simp add: students_def distinct_map_filter)

lemma students_not_author: "u \<in> set (students us s) \<Longrightarrow> user_id u \<noteq> authorId s"
  by (simp add: students_def)

lemma placeholders_length [simp]: "length (placeholders s chosen rnds nows) = length chosen"
  by (simp add: placeholders_def)

lemma placeholders_reviewers [simp]: "map reviewerId (placeholders s chosen rnds nows) = chosen"
proof -
  have "reviewerId \<circ> (\<lambda>(k, rid). \<lparr>rev_id = uid ''ra'' (rnds k), submissionId = sub_id s,
              reviewerId = rid, scores = None, comment = None, assignedAt = Some (nows k),
              status = ''pending'', submittedAt = None\<rparr>) = snd"
    by (rule ext) (simp add: case_prod_beta)
  then have "map reviewerId (placeholders s chosen rnds nows) = map snd (enumerate 0 chosen)"
    by (simp add: placeholders_def)
  then show ?thesis by simp
qed

lemma placeholders_fields:
  "r \<in> set (placeholders s chosen rnds nows) \<Longrightarrow>
   status r = ''pending'' \<and> submissionId r = sub_id s \<and> scores r = None \<and> comment r = None \<and>
   submittedAt r = None"
  by (auto simp: placeholders_def)

lemma createSubmission_SomeD:
  assumes "createSubmission st s draws rnds nows = Some st'"
  obtains chosen where
    "chooseReviewers (students (users st) s) (reviewersNeeded (assignments st) s) [] draws = Some chosen"
    and "st' = st\<lparr>submissions := submissions st @ [s],
                   reviews := reviews st @ placeholders s chosen rnds nows\<rparr>"
  using assms by (auto simp: createSubmission_def split: option.splits)

lemma createSubmission_None_iff:
  "createSubmission st s draws rnds nows = None \<longleftrightarrow>
   chooseReviewers (students (users st) s) (reviewersNeeded (assignments st) s) [] draws = None"
  by (simp add: createSubmission_def split: option.splits)

lemma sample_run:
  "createSubmission sample_state sample_submission [0, 0, 1] sample_rnds sample_nows =
   Some (sample_state\<lparr>submissions := [sample_submission],
           reviews := [\<lparr>rev_id = ''ra_k3v9x0a'', submissionId = ''sub_1'', reviewerId = ''s2'',
                        scores = None, comment = None, assignedAt = Some 100,
                        status = ''pending'', submittedAt = None\<rparr>,
                       \<lparr>rev_id = ''ra_p07bq2m'', submissionId = ''sub_1'', reviewerId = ''s3'',
                        scores = None, comment = None, assignedAt = Some 101,
                        status = ''pending'', submittedAt = None\<rparr>]\<rparr>)"
  by (simp add: createSubmission_def students_def reviewersNeeded_def placeholders_def uid_def sample_rnds_def sample_nows_def
      sample_state_def sample_submission_def sample_assignment_def seed_users_def)

subsection \<open>The review form\<close>

lemma fold_setScore_Some:
  "\<exists>al. foldl (\<lambda>s (cid, val). setScore cid val s) (Some al0) sets = Some al"
proof (induction sets arbitrary: al0)
  case Nil
  show ?case by simp
next
  case (Cons p sets)
  obtain cid val where p: "p = (cid, val)" by (cases p)
  show ?case using Cons.IH [of "AList.update cid val al0"] by (simp add: p setScore_def)
qed

lemma ReviewForm_validate_ok:
  "ReviewForm_validate rub (Some al) = Inr True \<Longrightarrow>
   \<forall>c\<in>set rub. \<exists>v. map_of al (crit_id c) = Some v"
  by (induction rub) (auto split: if_splits)

lemma ReviewForm_submit_ok:
  assumes "ReviewForm_submit a (Some al) cm = Inr (Some (sc, cm'))"
  shows "sc = Some al \<and> cm' = cm \<and> (\<forall>c\<in>set (rubric a). \<exists>v. map_of al (crit_id c) = Some v)"
proof -
  from assms have "ReviewForm_validate (rubric a) (Some al) = Inr True \<and> sc = Some al \<and> cm' = cm"
    by (auto simp: ReviewForm_submit_def split: sum.splits if_splits)
  then show ?thesis using ReviewForm_validate_ok by blast
qed

subsection \<open>Steps and runs\<close>

lemma find_append_Some: "find P xs = Some x \<Longrightarrow> find P (xs @ ys) = Some x"
  by (induction xs) (auto split: if_splits)

text \<open>
  What a step can do to the three collections: nothing, append an assignment, run
  \<^const>\<open>createSubmission\<close> for a submission to an existing assignment, or run
  \<^const>\<open>submitReview\<close> for the pair of an existing review with scores that the review form
  has validated against the rubric of that review's assignment.
\<close>

lemma step_cases:
  assumes "step st ev = Some st'"
  obtains
    (same) "assignments st' = assignments st" "submissions st' = submissions st"
           "reviews st' = reviews st"
  | (assignment) a where "st' = createAssignment st a"
  | (submission) k s draws rnds nows where
      "k < length (assignments st)" "assignmentId s = asg_id (assignments st ! k)"
      "createSubmission st s draws rnds nows = Some st'"
  | (review) r sub a al cm rnd now where
      "r \<in> set (reviews st)"
      "find (\<lambda>s. sub_id s = submissionId r) (submissions st) = Some sub"
      "find (\<lambda>a. asg_id a = assignmentId sub) (assignments st) = Some a"
      "\<forall>c\<in>set (rubric a). \<exists>v. map_of al (crit_id c) = Some v"
      "st' = st\<lparr>reviews := submitReview (submissionId r) (reviewerId r) (Some al) cm rnd now
                              (reviews st)\<rparr>"
proof (cases ev)
  case (Login sel)
  with assms same show ?thesis by (auto split: option.splits)
next
  case Logout
  with assms same show ?thesis by auto
next
  case Reload
  with assms same show ?thesis by auto
next
  case (CreateAssignmentEv title desc rub rnd now)
  with assms same assignment show ?thesis
    by (auto split: option.splits if_splits)
next
  case (SubmitEv k body rnd now draws rnds nows)
  show ?thesis
  proof (cases "\<exists>u s. user st = Some u \<and> user_role u \<noteq> ''teacher'' \<and> k < length (assignments st) \<and>
      SubmitForm_submit (assignments st ! k) u body rnd now = Some s")
    case True
    then obtain u s where u: "user st = Some u" "user_role u \<noteq> ''teacher''"
      "k < length (assignments st)"
      "SubmitForm_submit (assignments st ! k) u body rnd now = Some s" by blast
    then have "assignmentId s = asg_id (assignments st ! k)"
      by (auto simp: SubmitForm_submit_def split: if_splits)
    moreover have "createSubmission st s draws rnds nows = Some st'"
      using assms u by (simp add: SubmitEv)
    ultimately show ?thesis using submission u(3) by blast
  next
    case False
    with assms SubmitEv have "st' = st"
      by (auto split: option.splits if_splits)
    with same show ?thesis by simp
  qed
next
  case (ReviewEv k sets cm rnd now)
  show ?thesis
  proof (cases "st' = st")
    case True
    with same show ?thesis by simp
  next
    case False
    with assms ReviewEv obtain u where u: "user st = Some u" "user_role u \<noteq> ''teacher''"
      "k < length (myAssignedReviews st u)"
      by (auto split: option.splits if_splits)
    define r where "r = myAssignedReviews st u ! k"
    have rin: "r \<in> set (reviews st)"
      using u(3) nth_mem [of k "myAssignedReviews st u"]
      by (auto simp: r_def myAssignedReviews_def)
    from assms ReviewEv u False obtain sub where
      sub: "find (\<lambda>s. sub_id s = submissionId r) (submissions st) = Some sub"
      by (auto simp: r_def Let_def split: option.splits if_splits)
    from assms ReviewEv u False sub obtain a where
      a: "find (\<lambda>a. asg_id a = assignmentId sub) (assignments st) = Some a"
      by (auto simp: r_def Let_def split: option.splits if_splits)
    obtain al where al: "foldl (\<lambda>s (cid, val). setScore cid val s) (ReviewForm_init a None) sets =
        Some al"
      using fold_setScore_Some [of "init_scores (rubric a)" sets]
      by (auto simp: ReviewForm_init_def)
    from assms ReviewEv u False sub a al obtain sc cm' where
      ok: "ReviewForm_submit a (Some al) cm = Inr (Some (sc, cm'))"
      and st': "st' = st\<lparr>reviews := submitReview (submissionId r) (reviewerId r) sc (Some cm')
                                        rnd now (reviews st)\<rparr>"
      by (auto simp: r_def Let_def split: option.splits if_splits sum.splits)
    from ReviewForm_submit_ok [OF ok] st' rin sub a show ?thesis
      using review by blast
  qed
qed

lemma run_invariant:
  assumes "run st evs = Some st'" and "P st"
    and "\<And>st ev st'. step st ev = Some st' \<Longrightarrow> P st \<Longrightarrow> P st'"
  shows "P st'"
  using assms(1,2)
proof (induction evs arbitrary: st)
  case Nil
  then show ?case by simp
next
  case (Cons ev evs)
  from Cons.prems(1) obtain mid where
    s: "step st ev = Some mid" and r: "run mid evs = Some st'"
    by (auto split: option.splits)
  from assms(3) [OF s Cons.prems(2)] have "P mid" .
  with Cons.IH [OF r] show ?case .
qed

lemma reviews_not_by_author_step:
  assumes "step st ev = Some st'" and inv: "reviews_not_by_author st"
  shows "reviews_not_by_author st'"
  using assms(1)
proof (cases rule: step_cases)
  case same
  with inv show ?thesis by (simp add: reviews_not_by_author_def)
next
  case (assignment a)
  with inv show ?thesis by (simp add: reviews_not_by_author_def createAssignment_def)
next
  case (submission k s draws rnds nows)
  from submission(3) obtain chosen where
    c: "chooseReviewers (students (users st) s) (reviewersNeeded (assignments st) s) [] draws =
        Some chosen"
    and st': "st' = st\<lparr>submissions := submissions st @ [s],
                        reviews := reviews st @ placeholders s chosen rnds nows\<rparr>"
    by (rule createSubmission_SomeD)
  from chooseReviewers_result [OF c] have pool: "set chosen \<subseteq> user_id ` set (students (users st) s)"
    by auto
  have new: "submissionId r = sub_id s \<and> reviewerId r \<noteq> authorId s"
    if "r \<in> set (placeholders s chosen rnds nows)" for r
  proof -
    from that have "reviewerId r \<in> set (map reviewerId (placeholders s chosen rnds nows))"
      by (simp del: placeholders_reviewers)
    then have "reviewerId r \<in> set chosen" by simp
    with pool obtain u where "u \<in> set (students (users st) s)" "reviewerId r = user_id u"
      by auto
    then have "reviewerId r \<noteq> authorId s" using students_not_author by metis
    with placeholders_fields [OF that] show ?thesis by simp
  qed
  show ?thesis
    unfolding reviews_not_by_author_def
  proof
    fix r assume "r \<in> set (reviews st')"
    then consider "r \<in> set (reviews st)" | "r \<in> set (placeholders s chosen rnds nows)"
      by (auto simp: st')
    then show "\<exists>s\<in>set (submissions st'). sub_id s = submissionId r \<and> reviewerId r \<noteq> authorId s"
    proof cases
      case 1
      with inv show ?thesis by (auto simp: reviews_not_by_author_def st')
    next
      case 2
      from new [OF 2] show ?thesis by (auto simp: st')
    qed
  qed
next
  case (review r sub a al cm rnd now)
  show ?thesis
    unfolding reviews_not_by_author_def
  proof
    fix r' assume "r' \<in> set (reviews st')"
    then have "r' \<in> set (submitReview (submissionId r) (reviewerId r) (Some al) cm rnd now (reviews st))"
      by (simp add: review(5))
    from submitReview_cases [OF this]
    obtain r0 where "r0 \<in> set (reviews st)" "submissionId r' = submissionId r0"
      "reviewerId r' = reviewerId r0"
      using review(1) by blast
    with inv show "\<exists>s\<in>set (submissions st'). sub_id s = submissionId r' \<and> reviewerId r' \<noteq> authorId s"
      by (auto simp: reviews_not_by_author_def review(5))
  qed
qed

lemma done_reviews_scored_step:
  assumes "step st ev = Some st'" and inv: "done_reviews_scored st"
  shows "done_reviews_scored st'"
  using assms(1)
proof (cases rule: step_cases)
  case same
  with inv show ?thesis by (simp add: done_reviews_scored_def)
next
  case (assignment a)
  show ?thesis
    unfolding done_reviews_scored_def
  proof (intro ballI impI)
    fix r assume "r \<in> set (reviews st')" "status r = ''done''"
    with inv assignment obtain sub a0 sc where
      "find (\<lambda>s. sub_id s = submissionId r) (submissions st) = Some sub"
      "find (\<lambda>a. asg_id a = assignmentId sub) (assignments st) = Some a0"
      "scores r = Some sc" "\<forall>c\<in>set (rubric a0). \<exists>v. map_of sc (crit_id c) = Some v"
      by (auto simp: done_reviews_scored_def createAssignment_def)
    then show "\<exists>sub a sc. find (\<lambda>s. sub_id s = submissionId r) (submissions st') = Some sub \<and>
        find (\<lambda>a. asg_id a = assignmentId sub) (assignments st') = Some a \<and>
        scores r = Some sc \<and> (\<forall>c\<in>set (rubric a). \<exists>v. map_of sc (crit_id c) = Some v)"
      using find_append_Some [of "\<lambda>a. asg_id a = assignmentId sub" "assignments st" a0 "[a]"]
      by (auto simp: assignment createAssignment_def)
  qed
next
  case (submission k s draws rnds nows)
  from submission(3) obtain chosen where
    st': "st' = st\<lparr>submissions := submissions st @ [s],
                     reviews := reviews st @ placeholders s chosen rnds nows\<rparr>"
    by (rule createSubmission_SomeD)
  show ?thesis
    unfolding done_reviews_scored_def
  proof (intro ballI impI)
    fix r assume r: "r \<in> set (reviews st')" and d: "status r = ''done''"
    have "r \<notin> set (placeholders s chosen rnds nows)"
      using placeholders_fields [of r s chosen rnds nows] d by auto
    with r have "r \<in> set (reviews st)" by (auto simp: st')
    with inv d obtain sub a0 sc where
      f: "find (\<lambda>s. sub_id s = submissionId r) (submissions st) = Some sub"
      and rest: "find (\<lambda>a. asg_id a = assignmentId sub) (assignments st) = Some a0"
      "scores r = Some sc" "\<forall>c\<in>set (rubric a0). \<exists>v. map_of sc (crit_id c) = Some v"
      by (auto simp: done_reviews_scored_def)
    from find_append_Some [OF f, of "[s]"] rest
    show "\<exists>sub a sc. find (\<lambda>s. sub_id s = submissionId r) (submissions st') = Some sub \<and>
        find (\<lambda>a. asg_id a = assignmentId sub) (assignments st') = Some a \<and>
        scores r = Some sc \<and> (\<forall>c\<in>set (rubric a). \<exists>v. map_of sc (crit_id c) = Some v)"
      by (auto simp: st')
  qed
next
  case (review r sub a al cm rnd now)
  show ?thesis
    unfolding done_reviews_scored_def
  proof (intro ballI impI)
    fix r' assume "r' \<in> set (reviews st')" and d: "status r' = ''done''"
    then have "r' \<in> set (submitReview (submissionId r) (reviewerId r) (Some al) cm rnd now (reviews st))"
      by (simp add: review(5))
    from submitReview_cases [OF this]
    consider "r' \<in> set (reviews st)" | "submissionId r' = submissionId r" "scores r' = Some al"
      by blast
    then show "\<exists>sub a sc. find (\<lambda>s. sub_id s = submissionId r') (submissions st') = Some sub \<and>
        find (\<lambda>a. asg_id a = assignmentId sub) (assignments st') = Some a \<and>
        scores r' = Some sc \<and> (\<forall>c\<in>set (rubric a). \<exists>v. map_of sc (crit_id c) = Some v)"
    proof cases
      case 1
      with inv d show ?thesis by (auto simp: done_reviews_scored_def review(5))
    next
      case 2
      with review(2,3,4) show ?thesis by (auto simp: review(5))
    qed
  qed
qed

lemma sample_events_run: "run (init_state seed_users) sample_events = Some sample_final"
  by (simp add: sample_events_def sample_final_def init_state_def seed_users_def
      sample_assignment_def sample_submission_def sample_rnds_def sample_nows_def
      CreateAssignment_submit_def SubmitForm_submit_def ReviewForm_submit_def
      ReviewForm_init_def init_scores_def setScore_def blank_def is_space_def uid_def
      createAssignment_def createSubmission_def students_def reviewersNeeded_def
      placeholders_def myAssignedReviews_def submitReview_def is_pending_for_def)

lemma collision_events_run: "run (init_state seed_users) collision_events = Some collision_final"
  by (simp add: collision_events_def collision_final_def init_state_def seed_users_def
      sample_assignment_def sample_submission_def sample_rnds_def sample_nows_def
      other_rnds_def other_nows_def
      CreateAssignment_submit_def SubmitForm_submit_def blank_def is_space_def uid_def
      createAssignment_def createSubmission_def students_def reviewersNeeded_def
      placeholders_def)

text \<open>
  In a reachable state whose submissions have pairwise different ids, a review and a
  submission with the review's \<^verbatim>\<open>submissionId\<close> never have the reviewer as author.
\<close>

lemma distinct_ids_no_review_of_own_submission:
  assumes "run (init_state us) evs = Some st"
    and "distinct (map sub_id (submissions st))"
    and "r \<in> set (reviews st)" and "s \<in> set (submissions st)"
    and "sub_id s = submissionId r"
  shows "reviewerId r \<noteq> authorId s"
proof -
  have "reviews_not_by_author (init_state us)"
    by (simp add: reviews_not_by_author_def init_state_def)
  with assms(1) have "reviews_not_by_author st"
    by (rule run_invariant) (rule reviews_not_by_author_step)
  with assms(3) obtain s' where
    s': "s' \<in> set (submissions st)" "sub_id s' = submissionId r" "reviewerId r \<noteq> authorId s'"
    by (auto simp: reviews_not_by_author_def)
  from assms(2,4,5) s'(1,2) have "s' = s"
    by (metis distinct_map inj_onD)
  with s'(3) show ?thesis by simp
qed

section \<open>The claims\<close>

text \<open>
  Claim C1. The reviewer assignment step of \<^verbatim>\<open>createSubmission\<close> creates exactly
  min(reviewersPerSubmission, size of the eligible pool) pending placeholders, the
  eligible pool being the users with role student other than the author; with an empty
  pool it creates none and raises no error.

  User ids are taken to be pairwise different. The number of reviewers asked for is the
  value the code works with (\<^const>\<open>reviewersNeeded\<close>); for a positive
  \<^verbatim>\<open>reviewersPerSubmission\<close> it is that field. The step returns exactly when the random
  draws reach the target number of different reviewers, every list of draws can be
  continued so that it returns, and whenever it returns the new reviews are the old ones
  followed by the target number of pending placeholders for the submission.
\<close>

theorem createSubmission_creates_min_placeholders:
  assumes "distinct (map user_id (users st))"
  shows
    "let pool = {u \<in> set (users st). user_role u = ''student'' \<and> user_id u \<noteq> authorId s};
         needed = reviewersNeeded (assignments st) s;
         target = nat (min needed (int (card pool)))
     in (\<forall>a n. find (\<lambda>a. asg_id a = assignmentId s) (assignments st) = Some a \<and>
                reviewersPerSubmission a = Some n \<and> 0 < n \<longrightarrow>
                needed = n \<and> int target = min n (int (card pool))) \<and>
        (\<forall>st'. createSubmission st s draws rnds nows = Some st' \<longrightarrow>
           (\<exists>ph. st' = st\<lparr>submissions := submissions st @ [s], reviews := reviews st @ ph\<rparr> \<and>
                 length ph = target \<and>
                 (\<forall>r\<in>set ph. status r = ''pending'' \<and> submissionId r = sub_id s \<and>
                              scores r = None \<and> comment r = None))) \<and>
        ((createSubmission st s draws rnds nows \<noteq> None) =
           (target \<le> card (set (picks (students (users st) s) draws)))) \<and>
        (\<exists>more. createSubmission st s (draws @ more) rnds nows \<noteq> None) \<and>
        (pool = {} \<longrightarrow>
           createSubmission st s draws rnds nows = Some (st\<lparr>submissions := submissions st @ [s]\<rparr>))"
proof -
  let ?studs = "students (users st) s"
  let ?needed = "reviewersNeeded (assignments st) s"
  let ?pool = "{u \<in> set (users st). user_role u = ''student'' \<and> user_id u \<noteq> authorId s}"
  let ?target = "nat (min ?needed (int (card ?pool)))"
  have card: "card ?pool = length ?studs" using assms by (rule students_card)
  have positive: "\<forall>a n. find (\<lambda>a. asg_id a = assignmentId s) (assignments st) = Some a \<and>
      reviewersPerSubmission a = Some n \<and> 0 < n \<longrightarrow>
      ?needed = n \<and> int ?target = min n (int (card ?pool))"
    by (auto simp: reviewersNeeded_def)
  have count: "\<forall>st'. createSubmission st s draws rnds nows = Some st' \<longrightarrow>
      (\<exists>ph. st' = st\<lparr>submissions := submissions st @ [s], reviews := reviews st @ ph\<rparr> \<and>
            length ph = ?target \<and>
            (\<forall>r\<in>set ph. status r = ''pending'' \<and> submissionId r = sub_id s \<and>
                         scores r = None \<and> comment r = None))"
  proof (intro allI impI)
    fix st' assume "createSubmission st s draws rnds nows = Some st'"
    then obtain chosen where
      c: "chooseReviewers ?studs ?needed [] draws = Some chosen"
      and st': "st' = st\<lparr>submissions := submissions st @ [s],
                          reviews := reviews st @ placeholders s chosen rnds nows\<rparr>"
      by (rule createSubmission_SomeD)
    from chooseReviewers_result [OF c] have "length chosen = ?target"
      by (simp add: card)
    then have "length (placeholders s chosen rnds nows) = ?target" by simp
    with st' placeholders_fields [of _ s chosen rnds nows]
    show "\<exists>ph. st' = st\<lparr>submissions := submissions st @ [s], reviews := reviews st @ ph\<rparr> \<and>
            length ph = ?target \<and>
            (\<forall>r\<in>set ph. status r = ''pending'' \<and> submissionId r = sub_id s \<and>
                         scores r = None \<and> comment r = None)"
      by blast
  qed
  have iff: "(createSubmission st s draws rnds nows \<noteq> None) =
      (?target \<le> card (set (picks ?studs draws)))"
    using chooseReviewers_completes_iff [of "[]" ?studs ?needed draws]
    by (simp add: createSubmission_None_iff card nat_le_iff)
  have ext: "\<exists>more. createSubmission st s (draws @ more) rnds nows \<noteq> None"
    using chooseReviewers_can_complete [OF students_distinct_ids [OF assms], of s ?needed draws]
    by (auto simp: createSubmission_None_iff)
  have empty: "?pool = {} \<longrightarrow>
      createSubmission st s draws rnds nows = Some (st\<lparr>submissions := submissions st @ [s]\<rparr>)"
  proof
    assume "?pool = {}"
    then have "set ?studs = {}" by (simp only: students_set)
    then have "?studs = []" by simp
    then have "chooseReviewers ?studs ?needed [] draws = Some []"
      by (simp add: chooseReviewers_done)
    then show "createSubmission st s draws rnds nows = Some (st\<lparr>submissions := submissions st @ [s]\<rparr>)"
      by (simp add: createSubmission_def placeholders_def)
  qed
  from positive count iff ext empty show ?thesis
    unfolding Let_def by blast
qed

theorem createSubmission_creates_min_placeholders_witness:
  "distinct (map user_id (users sample_state)) \<and>
   find (\<lambda>a. asg_id a = assignmentId sample_submission) (assignments sample_state) =
     Some sample_assignment \<and>
   reviewersPerSubmission sample_assignment = Some 2 \<and> (0::int) < 2 \<and>
   (\<exists>st'. createSubmission sample_state sample_submission [0, 0, 1] sample_rnds sample_nows =
            Some st' \<and>
          int (length (reviews st')) =
            min 2 (int (card {u \<in> set (users sample_state).
                               user_role u = ''student'' \<and> user_id u \<noteq> authorId sample_submission})) \<and>
          length (reviews st') = 2) \<and>
   {u \<in> set (users lone_state). user_role u = ''student'' \<and> user_id u \<noteq> authorId sample_submission} = {} \<and>
   createSubmission lone_state sample_submission [] sample_rnds sample_nows =
     Some (lone_state\<lparr>submissions := submissions lone_state @ [sample_submission]\<rparr>)"
proof -
  let ?pool = "{u \<in> set (users sample_state).
                 user_role u = ''student'' \<and> user_id u \<noteq> authorId sample_submission}"
  let ?T = "nat (min (reviewersNeeded (assignments sample_state) sample_submission)
                     (int (card ?pool)))"
  have d: "distinct (map user_id (users sample_state))"
    by (simp add: sample_state_def seed_users_def)
  have f: "find (\<lambda>a. asg_id a = assignmentId sample_submission) (assignments sample_state) =
      Some sample_assignment"
    by (simp add: sample_state_def sample_assignment_def sample_submission_def)
  have n: "reviewersPerSubmission sample_assignment = Some 2"
    by (simp add: sample_assignment_def)
  note main = createSubmission_creates_min_placeholders
    [OF d, of sample_submission "[0, 0, 1]" sample_rnds sample_nows, unfolded Let_def]
  from main [THEN conjunct1] f n have t: "int ?T = min 2 (int (card ?pool))"
    by simp
  from sample_run obtain st' where
    run: "createSubmission sample_state sample_submission [0, 0, 1] sample_rnds sample_nows =
          Some st'"
    and two: "length (reviews st') = 2"
    by simp
  from main [THEN conjunct2, THEN conjunct1] run obtain ph where
    st': "st' = sample_state\<lparr>submissions := submissions sample_state @ [sample_submission],
                             reviews := reviews sample_state @ ph\<rparr>"
    and ph: "length ph = ?T"
    by blast
  have "reviews st' = reviews sample_state @ ph" by (simp add: st')
  moreover have "reviews sample_state = []" by (simp add: sample_state_def)
  ultimately have "length (reviews st') = ?T" using ph by simp
  with t two have r: "int (length (reviews st')) = min 2 (int (card ?pool)) \<and>
      length (reviews st') = 2"
    by simp
  have d2: "distinct (map user_id (users lone_state))"
    by (simp add: lone_state_def sample_state_def seed_users_def)
  have "students (users lone_state) sample_submission = []"
    by (simp add: students_def lone_state_def sample_state_def seed_users_def sample_submission_def)
  then have "set (students (users lone_state) sample_submission) = {}" by simp
  then have e: "{u \<in> set (users lone_state).
      user_role u = ''student'' \<and> user_id u \<noteq> authorId sample_submission} = {}"
    by (simp only: students_set)
  note lone = createSubmission_creates_min_placeholders
    [OF d2, of sample_submission "[]" sample_rnds sample_nows, unfolded Let_def]
  from lone [THEN conjunct2, THEN conjunct2, THEN conjunct2, THEN conjunct2] e
  have l: "createSubmission lone_state sample_submission [] sample_rnds sample_nows =
     Some (lone_state\<lparr>submissions := submissions lone_state @ [sample_submission]\<rparr>)"
    by (rule mp)
  from run r have ex: "\<exists>st'. createSubmission sample_state sample_submission [0, 0, 1]
      sample_rnds sample_nows = Some st' \<and>
      int (length (reviews st')) = min 2 (int (card ?pool)) \<and> length (reviews st') = 2"
    by blast
  have z: "(0::int) < 2" by simp
  from d f n z ex e l show ?thesis by (intro conjI)
qed

text \<open>
  Claim C2. \<^verbatim>\<open>submitReview\<close> is not idempotent: when the review list holds exactly one
  pending placeholder for the pair (submissionId, reviewerId), the first call turns it
  to done without changing the length of the list, the second call for the same pair
  finds no pending placeholder (\<^const>\<open>findIndex\<close> gives -1), takes the insert branch and
  appends a second done row for that pair.
\<close>

theorem submitReview_twice_inserts:
  assumes "length (filter (is_pending_for sid rid) prev) = 1"
  shows "let once = submitReview sid rid sc cm rnd now prev;
             twice = submitReview sid rid sc' cm' rnd' now' once;
             done_for = (\<lambda>r. submissionId r = sid \<and> reviewerId r = rid \<and> status r = ''done'')
         in length once = length prev \<and>
            findIndex (is_pending_for sid rid) once = - 1 \<and>
            twice = once @ [\<lparr>rev_id = uid ''r'' rnd', submissionId = sid, reviewerId = rid,
                              scores = sc', comment = cm', assignedAt = None, status = ''done'',
                              submittedAt = Some now'\<rparr>] \<and>
            length twice = length prev + 1 \<and>
            length (filter done_for twice) = length (filter done_for prev) + 2"
proof -
  from assms obtain x where fx: "filter (is_pending_for sid rid) prev = [x]"
    by (cases "filter (is_pending_for sid rid) prev") auto
  then obtain as bs where
    split: "prev = as @ x # bs" and before: "\<forall>a\<in>set as. \<not> is_pending_for sid rid a"
    and hit: "is_pending_for sid rid x" and after: "\<forall>b\<in>set bs. \<not> is_pending_for sid rid b"
    by (auto simp: filter_eq_Cons_iff filter_empty_conv empty_filter_conv)
  let ?x' = "x\<lparr>scores := sc, comment := cm, status := ''done'', submittedAt := Some now\<rparr>"
  have once: "submitReview sid rid sc cm rnd now prev = as @ ?x' # bs"
    using before hit by (simp add: split submitReview_found)
  have none: "\<forall>r\<in>set (as @ ?x' # bs). \<not> is_pending_for sid rid r"
    using before after by (auto simp: is_pending_for_def)
  have twice: "submitReview sid rid sc' cm' rnd' now' (as @ ?x' # bs) =
      (as @ ?x' # bs) @ [\<lparr>rev_id = uid ''r'' rnd', submissionId = sid, reviewerId = rid,
                           scores = sc', comment = cm', assignedAt = None, status = ''done'',
                           submittedAt = Some now'\<rparr>]"
    using none by (rule submitReview_not_found)
  have xs: "submissionId x = sid \<and> reviewerId x = rid \<and> status x = ''pending''"
    using hit by (simp add: is_pending_for_def)
  show ?thesis
    unfolding Let_def once twice
    using none xs by (simp add: split findIndex_none)
qed

theorem submitReview_twice_inserts_witness:
  "length (filter (is_pending_for ''sub_1'' ''s3'') sample_reviews) = 1 \<and>
   length (submitReview ''sub_1'' ''s3'' (Some [(''c_1'', 4)]) (Some ''fine'') ''aaaaaaa'' 201
            (submitReview ''sub_1'' ''s3'' (Some [(''c_1'', 4)]) (Some ''fine'') ''q1w2e3r'' 200
               sample_reviews)) = length sample_reviews + 1"
proof -
  have h: "length (filter (is_pending_for ''sub_1'' ''s3'') sample_reviews) = 1"
    by (simp add: sample_reviews_def is_pending_for_def)
  from submitReview_twice_inserts
         [OF h, of "Some [(''c_1'', 4)]" "Some ''fine''" "''q1w2e3r''" 200
                   "Some [(''c_1'', 4)]" "Some ''fine''" "''aaaaaaa''" 201]
  show ?thesis using h unfolding Let_def by blast
qed

text \<open>
  Claim C3. In every state that the application reaches, no review's \<^verbatim>\<open>reviewerId\<close> is
  the \<^verbatim>\<open>authorId\<close> of the submission that the review refers to.

  The pool of \<^verbatim>\<open>createSubmission\<close> leaves the author out, and the claim holds in every
  reachable state whose submission ids are pairwise different
  (\<open>distinct_ids_no_review_of_own_submission\<close>). The code does not keep them
  different: \<^verbatim>\<open>uid('sub')\<close> is a random suffix that nothing checks. In the run below the
  suffix comes out the same for the submissions of \<^verbatim>\<open>s1\<close> and of \<^verbatim>\<open>s2\<close>; the
  placeholder that assigns \<^verbatim>\<open>s1\<close> to the submission of \<^verbatim>\<open>s2\<close> then carries the id of
  the submission of \<^verbatim>\<open>s1\<close> as well, and the page resolves it to that one: \<^verbatim>\<open>s1\<close> is
  asked to review the essay of \<^verbatim>\<open>s1\<close>.
\<close>

theorem repeated_submission_id_review_of_own_submission:
  "run (init_state seed_users) collision_events = Some collision_final \<and>
   map sub_id (submissions collision_final) = [uid ''sub'' ''1'', uid ''sub'' ''1''] \<and>
   reviews collision_final ! 2 \<in> set (reviews collision_final) \<and>
   submissionOf collision_final (reviews collision_final ! 2) = Some sample_submission \<and>
   sample_submission \<in> set (submissions collision_final) \<and>
   sub_id sample_submission = submissionId (reviews collision_final ! 2) \<and>
   reviewerId (reviews collision_final ! 2) = authorId sample_submission"
proof -
  have "map sub_id (submissions collision_final) = [uid ''sub'' ''1'', uid ''sub'' ''1'']"
    by (simp add: collision_final_def sample_submission_def uid_def)
  moreover have "reviews collision_final ! 2 \<in> set (reviews collision_final)"
    by (simp add: collision_final_def)
  moreover have "submissionOf collision_final (reviews collision_final ! 2) = Some sample_submission"
    by (simp add: submissionOf_def collision_final_def sample_submission_def)
  moreover have "sample_submission \<in> set (submissions collision_final)"
    by (simp add: collision_final_def)
  moreover have "sub_id sample_submission = submissionId (reviews collision_final ! 2)"
    by (simp add: collision_final_def sample_submission_def)
  moreover have "reviewerId (reviews collision_final ! 2) = authorId sample_submission"
    by (simp add: collision_final_def sample_submission_def)
  ultimately show ?thesis using collision_events_run by simp
qed

text \<open>
  Claim C4. The placeholders that one run of the assignment step appends to the reviews
  have pairwise different reviewer ids.
\<close>

theorem createSubmission_reviewers_distinct:
  assumes "createSubmission st s draws rnds nows = Some st'"
  shows "take (length (reviews st)) (reviews st') = reviews st \<and>
         distinct (map reviewerId (drop (length (reviews st)) (reviews st')))"
proof -
  from assms obtain chosen where
    c: "chooseReviewers (students (users st) s) (reviewersNeeded (assignments st) s) [] draws =
        Some chosen"
    and st': "st' = st\<lparr>submissions := submissions st @ [s],
                        reviews := reviews st @ placeholders s chosen rnds nows\<rparr>"
    by (rule createSubmission_SomeD)
  from chooseReviewers_result [OF c] have "distinct chosen" by simp
  then show ?thesis by (simp add: st')
qed

theorem createSubmission_reviewers_distinct_witness:
  "(\<exists>st'. createSubmission sample_state sample_submission [1, 1, 1, 0] sample_rnds sample_nows =
           Some st' \<and>
          map reviewerId (reviews st') = [''s3'', ''s2''] \<and>
          distinct (map reviewerId (drop (length (reviews sample_state)) (reviews st'))))"
proof -
  have run: "createSubmission sample_state sample_submission [1, 1, 1, 0] sample_rnds sample_nows =
     Some (sample_state\<lparr>submissions := [sample_submission],
           reviews := [\<lparr>rev_id = ''ra_k3v9x0a'', submissionId = ''sub_1'', reviewerId = ''s3'',
                        scores = None, comment = None, assignedAt = Some 100,
                        status = ''pending'', submittedAt = None\<rparr>,
                       \<lparr>rev_id = ''ra_p07bq2m'', submissionId = ''sub_1'', reviewerId = ''s2'',
                        scores = None, comment = None, assignedAt = Some 101,
                        status = ''pending'', submittedAt = None\<rparr>]\<rparr>)"
    by (simp add: createSubmission_def students_def reviewersNeeded_def placeholders_def uid_def sample_rnds_def sample_nows_def
        sample_state_def sample_submission_def sample_assignment_def seed_users_def)
  from createSubmission_reviewers_distinct [OF run] run show ?thesis by simp
qed

text \<open>
  Claim C5. When the review list holds a pending review for the pair, \<^verbatim>\<open>submitReview\<close>
  updates the record at the index that \<^const>\<open>findIndex\<close> returns: scores, comment,
  status done and submittedAt are set; id, submissionId, reviewerId and assignedAt of
  that record, every other record and the length of the list are unchanged.
\<close>

theorem submitReview_updates_in_place:
  assumes "\<exists>r\<in>set prev. is_pending_for sid rid r"
  shows "let i = nat (findIndex (is_pending_for sid rid) prev);
             new = submitReview sid rid sc cm rnd now prev
         in i < length prev \<and> is_pending_for sid rid (prev ! i) \<and>
            new = prev[i := (prev ! i)\<lparr>scores := sc, comment := cm, status := ''done'',
                                        submittedAt := Some now\<rparr>] \<and>
            length new = length prev \<and>
            scores (new ! i) = sc \<and> comment (new ! i) = cm \<and> status (new ! i) = ''done'' \<and>
            submittedAt (new ! i) = Some now \<and>
            rev_id (new ! i) = rev_id (prev ! i) \<and>
            submissionId (new ! i) = submissionId (prev ! i) \<and>
            reviewerId (new ! i) = reviewerId (prev ! i) \<and>
            assignedAt (new ! i) = assignedAt (prev ! i) \<and>
            (\<forall>j<length prev. j \<noteq> i \<longrightarrow> new ! j = prev ! j)"
proof -
  from assms obtain as x bs where
    split: "prev = as @ x # bs" and before: "\<forall>a\<in>set as. \<not> is_pending_for sid rid a"
    and hit: "is_pending_for sid rid x"
    using first_match_split [of prev "is_pending_for sid rid"] by blast
  have idx: "nat (findIndex (is_pending_for sid rid) prev) = length as"
    using before hit by (simp add: split findIndex_append)
  have new: "submitReview sid rid sc cm rnd now prev =
      as @ x\<lparr>scores := sc, comment := cm, status := ''done'', submittedAt := Some now\<rparr> # bs"
    using before hit by (simp add: split submitReview_found)
  show ?thesis
    unfolding Let_def idx new
    using hit by (simp add: split nth_append nth_Cons')
qed

theorem submitReview_updates_in_place_witness:
  "(\<exists>r\<in>set sample_reviews. is_pending_for ''sub_1'' ''s3'' r) \<and>
   submitReview ''sub_1'' ''s3'' (Some [(''c_1'', 4)]) (Some ''fine'') ''q1w2e3r'' 200 sample_reviews =
     sample_reviews[1 := (sample_reviews ! 1)\<lparr>scores := Some [(''c_1'', 4)], comment := Some ''fine'',
                                             status := ''done'', submittedAt := Some 200\<rparr>]"
proof -
  have h: "\<exists>r\<in>set sample_reviews. is_pending_for ''sub_1'' ''s3'' r"
    by (simp add: sample_reviews_def is_pending_for_def)
  have i: "nat (findIndex (is_pending_for ''sub_1'' ''s3'') sample_reviews) = 1"
    by (simp add: sample_reviews_def is_pending_for_def)
  from submitReview_updates_in_place [OF h, of "Some [(''c_1'', 4)]" "Some ''fine''" "''q1w2e3r''" 200]
  show ?thesis using h unfolding Let_def i by blast
qed


text \<open>
  Claim C7, as amended. When the submission's assignment is not found, or its
  \<^verbatim>\<open>reviewersPerSubmission\<close> is unset or zero, the assignment step works with 2 and
  creates min(2, size of the eligible pool) placeholders. A negative
  \<^verbatim>\<open>reviewersPerSubmission\<close> is not replaced by 2: it is used as it is, and no
  placeholder is created.
\<close>

theorem createSubmission_default_reviewers:
  "let found = find (\<lambda>a. asg_id a = assignmentId s) (assignments st);
       studs = students (users st) s
   in ((found = None \<or>
        (\<exists>a. found = Some a \<and>
             (reviewersPerSubmission a = None \<or> reviewersPerSubmission a = Some 0))) \<longrightarrow>
         reviewersNeeded (assignments st) s = 2 \<and>
         (\<forall>st'. createSubmission st s draws rnds nows = Some st' \<longrightarrow>
            (\<exists>ph. st' = st\<lparr>submissions := submissions st @ [s], reviews := reviews st @ ph\<rparr> \<and>
                  length ph = min 2 (length studs)))) \<and>
      (\<forall>a n. found = Some a \<and> reviewersPerSubmission a = Some n \<and> n < 0 \<longrightarrow>
         createSubmission st s draws rnds nows =
           Some (st\<lparr>submissions := submissions st @ [s]\<rparr>))"
proof -
  let ?found = "find (\<lambda>a. asg_id a = assignmentId s) (assignments st)"
  let ?studs = "students (users st) s"
  have dflt: "(?found = None \<or>
        (\<exists>a. ?found = Some a \<and>
             (reviewersPerSubmission a = None \<or> reviewersPerSubmission a = Some 0))) \<longrightarrow>
         reviewersNeeded (assignments st) s = 2 \<and>
         (\<forall>st'. createSubmission st s draws rnds nows = Some st' \<longrightarrow>
            (\<exists>ph. st' = st\<lparr>submissions := submissions st @ [s], reviews := reviews st @ ph\<rparr> \<and>
                  length ph = min 2 (length ?studs)))"
  proof (intro impI conjI allI)
    assume a: "?found = None \<or>
        (\<exists>a. ?found = Some a \<and>
             (reviewersPerSubmission a = None \<or> reviewersPerSubmission a = Some 0))"
    then show two: "reviewersNeeded (assignments st) s = 2"
      by (auto simp: reviewersNeeded_def)
    fix st' assume "createSubmission st s draws rnds nows = Some st'"
    then obtain chosen where
      c: "chooseReviewers ?studs (reviewersNeeded (assignments st) s) [] draws = Some chosen"
      and st': "st' = st\<lparr>submissions := submissions st @ [s],
                          reviews := reviews st @ placeholders s chosen rnds nows\<rparr>"
      by (rule createSubmission_SomeD)
    from chooseReviewers_result [OF c] two have "length chosen = min 2 (length ?studs)"
      by auto
    then have "length (placeholders s chosen rnds nows) = min 2 (length ?studs)" by simp
    with st' show "\<exists>ph. st' = st\<lparr>submissions := submissions st @ [s], reviews := reviews st @ ph\<rparr> \<and>
                  length ph = min 2 (length ?studs)"
      by blast
  qed
  have neg: "\<forall>a n. ?found = Some a \<and> reviewersPerSubmission a = Some n \<and> n < 0 \<longrightarrow>
         createSubmission st s draws rnds nows =
           Some (st\<lparr>submissions := submissions st @ [s]\<rparr>)"
  proof (intro allI impI)
    fix a n assume a: "?found = Some a \<and> reviewersPerSubmission a = Some n \<and> n < 0"
    then have "reviewersNeeded (assignments st) s = n" by (auto simp: reviewersNeeded_def)
    with a have "chooseReviewers ?studs (reviewersNeeded (assignments st) s) [] draws = Some []"
      by (simp add: chooseReviewers_done)
    then show "createSubmission st s draws rnds nows =
           Some (st\<lparr>submissions := submissions st @ [s]\<rparr>)"
      by (simp add: createSubmission_def placeholders_def)
  qed
  from dflt neg show ?thesis unfolding Let_def by blast
qed

theorem createSubmission_default_reviewers_witness:
  "find (\<lambda>a. asg_id a = assignmentId sample_submission) (assignments unset_state) =
     Some (sample_assignment\<lparr>reviewersPerSubmission := None\<rparr>) \<and>
   reviewersNeeded (assignments unset_state) sample_submission = 2 \<and>
   find (\<lambda>a. asg_id a = assignmentId sample_submission) (assignments negative_state) =
     Some (sample_assignment\<lparr>reviewersPerSubmission := Some (- 1)\<rparr>) \<and>
   createSubmission negative_state sample_submission [0, 1] sample_rnds sample_nows =
     Some (negative_state\<lparr>submissions := submissions negative_state @ [sample_submission]\<rparr>)"
proof -
  have f1: "find (\<lambda>a. asg_id a = assignmentId sample_submission) (assignments unset_state) =
     Some (sample_assignment\<lparr>reviewersPerSubmission := None\<rparr>)"
    by (simp add: unset_state_def sample_state_def sample_assignment_def sample_submission_def)
  have f2: "find (\<lambda>a. asg_id a = assignmentId sample_submission) (assignments negative_state) =
     Some (sample_assignment\<lparr>reviewersPerSubmission := Some (- 1)\<rparr>)"
    by (simp add: negative_state_def sample_state_def sample_assignment_def sample_submission_def)
  from createSubmission_default_reviewers
    [of sample_submission unset_state "[]" sample_rnds sample_nows, unfolded Let_def] f1
  have r1: "reviewersNeeded (assignments unset_state) sample_submission = 2" by simp
  from createSubmission_default_reviewers
    [of sample_submission negative_state "[0, 1]" sample_rnds sample_nows, unfolded Let_def] f2
  have r2: "createSubmission negative_state sample_submission [0, 1] sample_rnds sample_nows =
     Some (negative_state\<lparr>submissions := submissions negative_state @ [sample_submission]\<rparr>)"
    by simp
  from f1 f2 r1 r2 show ?thesis by blast
qed

text \<open>
  Claim C7 as it is written fails for a negative value: with
  \<^verbatim>\<open>reviewersPerSubmission = -1\<close> and two eligible students the step creates no
  placeholder, where the same run with the value 2 creates two.
\<close>

theorem negative_reviewersPerSubmission_counterexample:
  "assignments negative_state = [sample_assignment\<lparr>reviewersPerSubmission := Some (- 1)\<rparr>] \<and>
   length (students (users negative_state) sample_submission) = 2 \<and>
   createSubmission negative_state sample_submission [0, 0, 1] sample_rnds sample_nows =
     Some (negative_state\<lparr>submissions := [sample_submission], reviews := []\<rparr>) \<and>
   createSubmission (negative_state\<lparr>assignments :=
        [sample_assignment\<lparr>reviewersPerSubmission := Some 2\<rparr>]\<rparr>)
      sample_submission [0, 0, 1] sample_rnds sample_nows =
     Some (negative_state\<lparr>assignments := [sample_assignment\<lparr>reviewersPerSubmission := Some 2\<rparr>],
             submissions := [sample_submission],
             reviews := [\<lparr>rev_id = ''ra_k3v9x0a'', submissionId = ''sub_1'', reviewerId = ''s2'',
                          scores = None, comment = None, assignedAt = Some 100,
                          status = ''pending'', submittedAt = None\<rparr>,
                         \<lparr>rev_id = ''ra_p07bq2m'', submissionId = ''sub_1'', reviewerId = ''s3'',
                          scores = None, comment = None, assignedAt = Some 101,
                          status = ''pending'', submittedAt = None\<rparr>]\<rparr>)"
  by (simp add: createSubmission_def students_def reviewersNeeded_def placeholders_def uid_def
      sample_rnds_def sample_nows_def negative_state_def sample_state_def sample_submission_def
      sample_assignment_def seed_users_def)

text \<open>
  Claim C8. In every state that the application reaches from a fresh profile, every done
  review has a scores object with a number for every criterion of the rubric of the
  assignment of its submission. The handler \<^verbatim>\<open>submitReview\<close> stores the scores it is
  given; its one caller is the review form, which starts with a score for every criterion
  and submits only scores that have an entry for each.
\<close>

theorem done_reviews_fully_scored:
  assumes "run (init_state us) evs = Some st"
    and "r \<in> set (reviews st)" and "status r = ''done''"
  shows "\<exists>sub a sc. find (\<lambda>s. sub_id s = submissionId r) (submissions st) = Some sub \<and>
                    find (\<lambda>a. asg_id a = assignmentId sub) (assignments st) = Some a \<and>
                    scores r = Some sc \<and>
                    (\<forall>c\<in>set (rubric a). \<exists>v. map_of sc (crit_id c) = Some v)"
proof -
  have "done_reviews_scored (init_state us)"
    by (simp add: done_reviews_scored_def init_state_def)
  with assms(1) have "done_reviews_scored st"
    by (rule run_invariant) (rule done_reviews_scored_step)
  with assms(2,3) show ?thesis by (simp add: done_reviews_scored_def)
qed

theorem done_reviews_fully_scored_witness:
  "\<exists>st. run (init_state seed_users) sample_events = Some st \<and>
        reviews st ! 0 \<in> set (reviews st) \<and> status (reviews st ! 0) = ''done'' \<and>
        (\<exists>sub a sc. find (\<lambda>s. sub_id s = submissionId (reviews st ! 0)) (submissions st) = Some sub \<and>
                    find (\<lambda>a. asg_id a = assignmentId sub) (assignments st) = Some a \<and>
                    scores (reviews st ! 0) = Some sc \<and>
                    (\<forall>c\<in>set (rubric a). \<exists>v. map_of sc (crit_id c) = Some v))"
proof -
  have r: "reviews sample_final ! 0 \<in> set (reviews sample_final)"
    by (simp add: sample_final_def)
  have d: "status (reviews sample_final ! 0) = ''done''"
    by (simp add: sample_final_def)
  from done_reviews_fully_scored [OF sample_events_run r d] sample_events_run r d
  show ?thesis by blast
qed

text \<open>
  Claim C9. \<^verbatim>\<open>LS.get\<close> never throws. It returns the fallback when the key is absent,
  when the stored text is not valid JSON, and when the parsed value is null; otherwise it
  returns the parsed value. (It also returns the fallback when reading the store
  throws.) \<^verbatim>\<open>JSON.parse\<close> is taken to parse the text \<^verbatim>\<open>null\<close> to null and never
  to return undefined.
\<close>

theorem LS_get_returns_fallback_or_value:
  assumes "parse ''null'' = Inr JNull" and "\<forall>t. parse t \<noteq> Inr JUndefined"
  shows "(getItem key = Inr None \<longrightarrow> LS_get getItem parse key fb = Inr fb) \<and>
         (\<forall>t e. getItem key = Inr (Some t) \<and> parse t = Inl e \<longrightarrow>
                 LS_get getItem parse key fb = Inr fb) \<and>
         (\<forall>t. getItem key = Inr (Some t) \<and> parse t = Inr JNull \<longrightarrow>
               LS_get getItem parse key fb = Inr fb) \<and>
         (\<forall>t v. getItem key = Inr (Some t) \<and> parse t = Inr v \<and> v \<noteq> JNull \<longrightarrow>
                 LS_get getItem parse key fb = Inr v) \<and>
         (\<forall>e. getItem key = Inl e \<longrightarrow> LS_get getItem parse key fb = Inr fb) \<and>
         (\<exists>v. LS_get getItem parse key fb = Inr v)"
proof -
  have absent: "getItem key = Inr None \<longrightarrow> LS_get getItem parse key fb = Inr fb"
    using assms(1) by (simp add: LS_get_def LS_get_try_def nullish_def)
  have invalid: "\<forall>t e. getItem key = Inr (Some t) \<and> parse t = Inl e \<longrightarrow>
      LS_get getItem parse key fb = Inr fb"
    by (simp add: LS_get_def LS_get_try_def)
  have null: "\<forall>t. getItem key = Inr (Some t) \<and> parse t = Inr JNull \<longrightarrow>
      LS_get getItem parse key fb = Inr fb"
    by (simp add: LS_get_def LS_get_try_def nullish_def)
  have "value": "\<forall>t v. getItem key = Inr (Some t) \<and> parse t = Inr v \<and> v \<noteq> JNull \<longrightarrow>
      LS_get getItem parse key fb = Inr v"
    using assms(2) by (auto simp: LS_get_def LS_get_try_def nullish_def)
  have throws: "\<forall>e. getItem key = Inl e \<longrightarrow> LS_get getItem parse key fb = Inr fb"
    by (simp add: LS_get_def LS_get_try_def)
  have total: "\<exists>v. LS_get getItem parse key fb = Inr v"
    by (simp add: LS_get_def split: sum.splits)
  from absent invalid null "value" throws total show ?thesis by blast
qed

theorem LS_get_returns_fallback_or_value_witness:
  "sample_parse ''null'' = Inr JNull \<and> (\<forall>t. sample_parse t \<noteq> Inr JUndefined) \<and>
   sample_getItem ''assignments'' = Inr None \<and>
   LS_get sample_getItem sample_parse ''assignments'' (JArr []) = Inr (JArr []) \<and>
   sample_getItem ''users'' = Inr (Some ''[{'') \<and> sample_parse ''[{'' = Inl SyntaxError \<and>
   LS_get sample_getItem sample_parse ''users'' JUndefined = Inr JUndefined \<and>
   sample_getItem ''currentUser'' = Inr (Some ''null'') \<and>
   LS_get sample_getItem sample_parse ''currentUser'' (JStr ''nobody'') = Inr (JStr ''nobody'') \<and>
   sample_getItem ''flag'' = Inr (Some ''false'') \<and> sample_parse ''false'' = Inr (JBool False) \<and>
   LS_get sample_getItem sample_parse ''flag'' (JArr []) = Inr (JBool False)"
proof -
  have p1: "sample_parse ''null'' = Inr JNull" by (simp add: sample_parse_def)
  have p2: "\<forall>t. sample_parse t \<noteq> Inr JUndefined" by (simp add: sample_parse_def)
  have g1: "sample_getItem ''assignments'' = Inr None" by (simp add: sample_getItem_def)
  have g2: "sample_getItem ''users'' = Inr (Some ''[{'')" by (simp add: sample_getItem_def)
  have g3: "sample_getItem ''currentUser'' = Inr (Some ''null'')" by (simp add: sample_getItem_def)
  have g4: "sample_getItem ''flag'' = Inr (Some ''false'')" by (simp add: sample_getItem_def)
  have q2: "sample_parse ''[{'' = Inl SyntaxError" by (simp add: sample_parse_def)
  have q4: "sample_parse ''false'' = Inr (JBool False)" by (simp add: sample_parse_def)
  have r1: "LS_get sample_getItem sample_parse ''assignments'' (JArr []) = Inr (JArr [])"
    using LS_get_returns_fallback_or_value [OF p1 p2, of sample_getItem "''assignments''" "JArr []"] g1
    by blast
  have r2: "LS_get sample_getItem sample_parse ''users'' JUndefined = Inr JUndefined"
    using LS_get_returns_fallback_or_value [OF p1 p2, of sample_getItem "''users''" JUndefined] g2 q2
    by blast
  have r3: "LS_get sample_getItem sample_parse ''currentUser'' (JStr ''nobody'') = Inr (JStr ''nobody'')"
    using LS_get_returns_fallback_or_value [OF p1 p2, of sample_getItem "''currentUser''" "JStr ''nobody''"]
      g3 p1 by blast
  have r4: "LS_get sample_getItem sample_parse ''flag'' (JArr []) = Inr (JBool False)"
    using LS_get_returns_fallback_or_value [OF p1 p2, of sample_getItem "''flag''" "JArr []"] g4 q4
    by blast
  from p1 p2 g1 g2 g3 g4 q2 q4 r1 r2 r3 r4 show ?thesis by blast
qed

text \<open>
  Claim C10. When the review list holds several pending reviews for the same pair,
  \<^verbatim>\<open>submitReview\<close> updates the first of them in list order only: a later one is the
  same record as before and still pending.
\<close>

theorem submitReview_first_match_only:
  assumes "i < j" and "j < length prev"
    and "is_pending_for sid rid (prev ! i)" and "is_pending_for sid rid (prev ! j)"
    and "\<forall>k<i. \<not> is_pending_for sid rid (prev ! k)"
  shows "let new = submitReview sid rid sc cm rnd now prev
         in new = prev[i := (prev ! i)\<lparr>scores := sc, comment := cm, status := ''done'',
                                        submittedAt := Some now\<rparr>] \<and>
            status (new ! i) = ''done'' \<and>
            new ! j = prev ! j \<and> is_pending_for sid rid (new ! j)"
proof -
  have il: "i < length prev" using assms(1,2) by simp
  have split: "prev = take i prev @ prev ! i # drop (Suc i) prev"
    using il by (simp add: id_take_nth_drop)
  have before: "\<forall>a\<in>set (take i prev). \<not> is_pending_for sid rid a"
    using assms(5) il by (auto simp: in_set_conv_nth)
  have "submitReview sid rid sc cm rnd now (take i prev @ prev ! i # drop (Suc i) prev) =
      take i prev @ (prev ! i)\<lparr>scores := sc, comment := cm, status := ''done'',
                                submittedAt := Some now\<rparr> # drop (Suc i) prev"
    using before assms(3) by (rule submitReview_found)
  then have new: "submitReview sid rid sc cm rnd now prev =
      prev[i := (prev ! i)\<lparr>scores := sc, comment := cm, status := ''done'',
                             submittedAt := Some now\<rparr>]"
    using il split by (simp add: upd_conv_take_nth_drop)
  show ?thesis
    unfolding Let_def new using assms(1,2,4) il by simp
qed

theorem submitReview_first_match_only_witness:
  "(0::nat) < 2 \<and> 2 < length sample_reviews \<and>
   is_pending_for ''sub_1'' ''s2'' (sample_reviews ! 0) \<and>
   is_pending_for ''sub_1'' ''s2'' (sample_reviews ! 2) \<and>
   status (submitReview ''sub_1'' ''s2'' (Some []) None ''q1w2e3r'' 200 sample_reviews ! 0) = ''done'' \<and>
   submitReview ''sub_1'' ''s2'' (Some []) None ''q1w2e3r'' 200 sample_reviews ! 2 = sample_reviews ! 2"
proof -
  have h1: "(0::nat) < 2" by simp
  have h2: "2 < length sample_reviews" by (simp add: sample_reviews_def)
  have h3: "is_pending_for ''sub_1'' ''s2'' (sample_reviews ! 0)"
    by (simp add: sample_reviews_def is_pending_for_def)
  have h4: "is_pending_for ''sub_1'' ''s2'' (sample_reviews ! 2)"
    by (simp add: sample_reviews_def is_pending_for_def)
  have h5: "\<forall>k<0::nat. \<not> is_pending_for ''sub_1'' ''s2'' (sample_reviews ! k)" by simp
  from submitReview_first_match_only [OF h1 h2 h3 h4 h5, of "Some []" None "''q1w2e3r''" 200]
  show ?thesis using h1 h2 h3 h4 unfolding Let_def by blast
qed

end
